theory Spec2Isabelle
  imports
    Complex_Main
    "HOL-Library.Multiset"
    "HOL-Library.Char_ord"
    "HOL-Library.List_Lexorder"
begin

section \<open>JavaScript values used by the segmentation engine\<close>

text \<open>
  The engine is TypeScript. The embedding fixes the following reading of its values.
  \<^item> A \<open>number\<close> that holds a gap, a timeout or a percentile is an exact \<^typ>\<open>real\<close>:
    rounding, \<open>NaN\<close> and the infinities of IEEE doubles are not modelled.
  \<^item> A \<open>number\<close> that holds an identifier (\<open>from_id\<close>, \<open>sender_id\<close>) is an \<^typ>\<open>int\<close>.
  \<^item> A \<open>Date\<close> is its time value, the milliseconds since the epoch, as an \<^typ>\<open>int\<close>; the
    field \<open>sent_at\<close> of a message, an ISO string in the source, is held as the time value
    that \<open>new Date(sent_at)\<close> denotes. Only valid dates are modelled (the input contract of
    the engine: every message supplies a parseable timestamp).
  \<^item> An optional parameter is an \<open>option\<close>; \<open>None\<close> is the omitted argument.
  \<^item> A \<open>throw\<close> is the left summand of a sum type.
\<close>

datatype js_error =
    Error string
  | TypeError

subsection \<open>Number to string\<close>

definition digit_char :: "nat \<Rightarrow> char" where
  "digit_char d = ''0123456789'' ! d"

fun nat_toString :: "nat \<Rightarrow> string" where
  "nat_toString n =
     (if n < 10 then [digit_char n] else nat_toString (n div 10) @ [digit_char (n mod 10)])"

declare nat_toString.simps [simp del]

text \<open>\<open>Number.prototype.toString\<close> on an integer (of magnitude below \<open>10^21\<close>).\<close>

definition Number_toString :: "int \<Rightarrow> string" where
  "Number_toString i =
     (if i < 0 then CHR ''-'' # nat_toString (nat (- i)) else nat_toString (nat i))"

text \<open>Decimal digits, left-padded with zeros to a width.\<close>

definition padStart0 :: "nat \<Rightarrow> nat \<Rightarrow> string" where
  "padStart0 w n = replicate (w - length (nat_toString n)) (CHR ''0'') @ nat_toString n"

subsection \<open>Strings and arrays\<close>

text \<open>\<open>String.prototype.split\<close> with a one-character separator.\<close>

fun js_split :: "char \<Rightarrow> string \<Rightarrow> string list" where
  "js_split c [] = [[]]"
| "js_split c (x # xs) =
     (if x = c then [] # js_split c xs
      else (case js_split c xs of
              [] \<Rightarrow> [[x]]
            | p # ps \<Rightarrow> (x # p) # ps))"

text \<open>\<open>Array.prototype.join\<close> on an array of strings.\<close>

fun js_join :: "string \<Rightarrow> string list \<Rightarrow> string" where
  "js_join sep [] = []"
| "js_join sep [x] = x"
| "js_join sep (x # y # ys) = x @ sep @ js_join sep (y # ys)"

text \<open>
  \<open>Array.from(new Set(xs))\<close>: the distinct elements of \<open>xs\<close> in the order of their first
  occurrence.
\<close>

definition Array_from_Set :: "'a list \<Rightarrow> 'a list" where
  "Array_from_Set xs = foldl (\<lambda>acc x. if x \<in> set acc then acc else acc @ [x]) [] xs"

text \<open>
  \<open>Array.prototype.sort()\<close> called without a comparator on an array of numbers: the elements
  are ordered by their string conversions, compared code unit by code unit; the sort is
  stable.
\<close>

definition sort_default :: "int list \<Rightarrow> int list" where
  "sort_default xs = sort_key Number_toString xs"

text \<open>\<open>Array.prototype.map\<close> with a callback that may throw: the first throw ends the map.\<close>

fun map_throw :: "('a \<Rightarrow> js_error + 'b) \<Rightarrow> 'a list \<Rightarrow> js_error + 'b list" where
  "map_throw f [] = Inr []"
| "map_throw f (x # xs) =
     (case f x of
        Inl e \<Rightarrow> Inl e
      | Inr y \<Rightarrow> (case map_throw f xs of Inl e \<Rightarrow> Inl e | Inr ys \<Rightarrow> Inr (y # ys)))"

subsection \<open>Dates\<close>

text \<open>The civil date (year, month, day) of a day number counted from 1970-01-01.\<close>

definition civil_from_days :: "int \<Rightarrow> int \<times> int \<times> int" where
  "civil_from_days days =
     (let z = days + 719468;
          era = z div 146097;
          doe = z - era * 146097;
          yoe = (doe - doe div 1460 + doe div 36524 - doe div 146096) div 365;
          y = yoe + era * 400;
          doy = doe - (365 * yoe + yoe div 4 - yoe div 100);
          mp = (5 * doy + 2) div 153;
          d = doy - (153 * mp + 2) div 5 + 1;
          m = (if mp < 10 then mp + 3 else mp - 9)
      in (if m \<le> 2 then y + 1 else y, m, d))"

definition iso_year :: "int \<Rightarrow> string" where
  "iso_year y =
     (if 0 \<le> y \<and> y \<le> 9999 then padStart0 4 (nat y)
      else (if y < 0 then CHR ''-'' else CHR ''+'') # padStart0 6 (nat \<bar>y\<bar>))"

definition iso_date_part :: "int \<Rightarrow> string" where
  "iso_date_part t =
     (case civil_from_days (t div 86400000) of
        (y, m, d) \<Rightarrow> iso_year y @ ''-'' @ padStart0 2 (nat m) @ ''-'' @ padStart0 2 (nat d))"

definition iso_time_part :: "int \<Rightarrow> string" where
  "iso_time_part t =
     (let ms = t mod 86400000
      in padStart0 2 (nat (ms div 3600000)) @ '':'' @
         padStart0 2 (nat (ms div 60000 mod 60)) @ '':'' @
         padStart0 2 (nat (ms div 1000 mod 60)) @ ''.'' @
         padStart0 3 (nat (ms mod 1000)) @ ''Z'')"

text \<open>\<open>Date.prototype.toISOString\<close>: \<open>YYYY-MM-DDTHH:mm:ss.sssZ\<close> in UTC.\<close>

definition toISOString :: "int \<Rightarrow> string" where
  "toISOString t = iso_date_part t @ ''T'' @ iso_time_part t"

text \<open>\<open>utils/time.ts\<close>: \<open>parseDate\<close> returns the date its argument denotes.\<close>

definition parseDate :: "int \<Rightarrow> int" where
  "parseDate date = date"

definition getGapSeconds :: "int \<Rightarrow> int \<Rightarrow> real" where
  "getGapSeconds date1 date2 = \<bar>real_of_int date2 - real_of_int date1\<bar> / 1000"

section \<open>Knee-point threshold estimator (\<open>segmentation/kneedle.ts\<close>)\<close>

text \<open>
  The running maximum of \<open>findKneePoint\<close> starts at \<open>-Infinity\<close>, here \<open>None\<close>; the test
  \<open>diff > maxDiff\<close> is \<open>exceeds\<close>.
\<close>

definition exceeds :: "real \<Rightarrow> real option \<Rightarrow> bool" where
  "exceeds diff maxDiff = (case maxDiff of None \<Rightarrow> True | Some m \<Rightarrow> diff > m)"

definition knee_step :: "real list \<Rightarrow> nat \<Rightarrow> real option \<times> nat \<Rightarrow> real option \<times> nat" where
  "knee_step differences i st =
     (case st of (maxDiff, kneeIndex) \<Rightarrow>
        (let diff = \<bar>differences ! i\<bar>
         in if exceeds diff maxDiff then (Some diff, i) else (maxDiff, kneeIndex)))"

definition findKneePoint :: "real list \<Rightarrow> nat" where
  "findKneePoint values =
     (if length values < 3 then length values div 2
      else
        let n = length values;
            xNorm = map (\<lambda>i. real i / real (n - 1)) [0..<n];
            yMin = values ! 0;
            yMax = values ! (n - 1);
            yRange = yMax - yMin
        in if yRange = 0 then n div 2
           else
             let yNorm = map (\<lambda>y. (y - yMin) / yRange) values;
                 differences = map (\<lambda>i. xNorm ! i - yNorm ! i) [0..<n]
             in snd (fold (knee_step differences) [1..<n - 1] (None, 0)))"

definition getPercentileTimeout :: "real list \<Rightarrow> real \<Rightarrow> real" where
  "getPercentileTimeout gaps percentile =
     (if length gaps = 0 then 300
      else
        let sorted = sort gaps;
            index = \<lceil>(percentile / 100) * real (length sorted)\<rceil> - 1
        in sorted ! nat (max 0 (min index (int (length sorted) - 1))))"

definition getAdaptiveTimeout :: "real list \<Rightarrow> real \<Rightarrow> real" where
  "getAdaptiveTimeout gaps fallbackPercentile =
     (if length gaps < 5 then getPercentileTimeout gaps fallbackPercentile
      else
        let sorted = sort gaps;
            kneeIndex = findKneePoint sorted;
            kneeValue = sorted ! kneeIndex
        in if kneeIndex > 0 \<and> kneeIndex < length sorted - 1 then kneeValue
           else getPercentileTimeout sorted fallbackPercentile)"

record Timeouts =
  turn_timeout :: real
  threadlet_timeout :: real
  session_timeout :: real

definition calculateTimeouts :: "real list \<Rightarrow> Timeouts" where
  "calculateTimeouts gaps =
     (if length gaps = 0 then
        \<lparr>turn_timeout = 180, threadlet_timeout = 1800, session_timeout = 14400\<rparr>
      else
        let sorted = sort gaps
        in \<lparr>turn_timeout = getPercentileTimeout sorted 70,
            threadlet_timeout = getAdaptiveTimeout sorted 85,
            session_timeout = getPercentileTimeout sorted 95\<rparr>)"

section \<open>Data model (\<open>types.ts\<close>)\<close>

record Message =
  ID :: int
  chat_id :: int
  from_id :: int
  content :: string
  sent_at :: int
  message_id :: string
  key_version :: int
  CreatedAt :: string
  UpdatedAt :: string

record Turn =
  messages :: "Message list"
  sender_id :: int
  start_time :: int
  end_time :: int

record Volley =
  volley_id :: string
  turns :: "Turn list"
  participants :: "int list"
  start_time :: int
  end_time :: int
  depth :: nat
  message_count :: nat
  pivot_text :: string

record Session =
  volleys :: "Volley list"
  participants :: "int list"
  start_time :: int
  end_time :: int
  duration_minutes :: real

text \<open>
  The test \<open>!timeout\<close> on an optional number: true for the omitted argument and for \<open>0\<close>.
\<close>

definition js_not :: "real option \<Rightarrow> bool" where
  "js_not x = (case x of None \<Rightarrow> True | Some v \<Rightarrow> v = 0)"

section \<open>Volley builder (\<open>segmentation/volley.ts\<close>)\<close>

text \<open>
  \<open>sha256\<close> comes from the package \<open>js-sha256\<close>; the functions that call it take it as the
  parameter \<open>sha256\<close>.
\<close>

definition createVolleyId ::
  "(string \<Rightarrow> string) \<Rightarrow> int \<Rightarrow> int \<Rightarrow> int list \<Rightarrow> string" where
  "createVolleyId sha256 startTime endTime participantIds =
     (let data = toISOString startTime @ ''-'' @ toISOString endTime @ ''-'' @
                 js_join '','' (map Number_toString (sort_default participantIds))
      in take 16 (sha256 data))"

definition depth_step :: "Turn \<Rightarrow> nat \<times> int option \<Rightarrow> nat \<times> int option" where
  "depth_step turn st =
     (case st of (depth', lastSender) \<Rightarrow>
        ((if lastSender \<noteq> None \<and> Some (sender_id turn) \<noteq> lastSender then depth' + 1 else depth'),
         Some (sender_id turn)))"

text \<open>
  One line of the pivot text. \<open>split('T')[1]\<close> is \<open>undefined\<close> when the split has a single
  part, and \<open>substring\<close> then throws; \<open>participants[0]\<close> is \<open>undefined\<close>, equal to no sender,
  when there is no participant.
\<close>

definition pivot_line :: "int list \<Rightarrow> Message \<Rightarrow> js_error + string" where
  "pivot_line participants' msg =
     (let time = parseDate (sent_at msg);
          parts = js_split (CHR ''T'') (toISOString time)
      in if length parts \<le> 1 then Inl TypeError
         else
           let timeStr = take 5 (parts ! 1);
               sender = (if (case participants' of [] \<Rightarrow> False | p # _ \<Rightarrow> from_id msg = p)
                         then ''Me'' else ''Them'')
           in Inr (timeStr @ '' - '' @ sender @ '': '' @ content msg))"

definition buildVolley :: "(string \<Rightarrow> string) \<Rightarrow> Turn list \<Rightarrow> js_error + Volley" where
  "buildVolley sha256 turns' =
     (if length turns' = 0 then Inl (Error ''Cannot build volley from empty turns array'')
      else
        let messages' = concat (map Turn.messages turns');
            participants' = sort_default (Array_from_Set (map sender_id turns'));
            startTime = Turn.start_time (turns' ! 0);
            endTime = Turn.end_time (turns' ! (length turns' - 1));
            depth' = fst (fold depth_step turns' (0, None))
        in case map_throw (pivot_line participants') messages' of
             Inl e \<Rightarrow> Inl e
           | Inr lines \<Rightarrow>
               Inr \<lparr>volley_id = createVolleyId sha256 startTime endTime participants',
                    turns = turns',
                    Volley.participants = participants',
                    Volley.start_time = startTime,
                    Volley.end_time = endTime,
                    depth = depth',
                    message_count = length messages',
                    pivot_text = js_join [CHR 0x0A] lines\<rparr>)"

text \<open>\<open>volleys[0]\<close> is \<open>undefined\<close> on an empty array, and reading its field throws.\<close>

definition buildSession :: "Volley list \<Rightarrow> js_error + Session" where
  "buildSession volleys' =
     (if length volleys' = 0 then Inl TypeError
      else
        let startTime = Volley.start_time (volleys' ! 0);
            endTime = Volley.end_time (volleys' ! (length volleys' - 1));
            participants' = sort_default (Array_from_Set (concat (map Volley.participants volleys')));
            durationMinutes = getGapSeconds startTime endTime / 60
        in Inr \<lparr>volleys = volleys',
                Session.participants = participants',
                Session.start_time = startTime,
                Session.end_time = endTime,
                duration_minutes = durationMinutes\<rparr>)"

text \<open>
  The loop \<open>for (i = 1; i < volleys.length; i++)\<close> reads \<open>volleys[i - 1]\<close> and \<open>volleys[i]\<close>:
  the recursion walks the array by adjacent pairs, with the loop's variables as its state.
\<close>

fun groupVolleysIntoSessions_loop ::
  "real \<Rightarrow> Volley list \<Rightarrow> Session list \<times> Volley list \<Rightarrow> js_error + Session list \<times> Volley list" where
  "groupVolleysIntoSessions_loop sessionTimeout (prevVolley # currVolley # rest)
       (sessions, currentSession) =
     (let gap = getGapSeconds (Volley.end_time prevVolley) (Volley.start_time currVolley)
      in if gap > sessionTimeout then
           (case buildSession currentSession of
              Inl e \<Rightarrow> Inl e
            | Inr s \<Rightarrow>
                groupVolleysIntoSessions_loop sessionTimeout (currVolley # rest)
                  (sessions @ [s], [currVolley]))
         else
           groupVolleysIntoSessions_loop sessionTimeout (currVolley # rest)
             (sessions, currentSession @ [currVolley]))"
| "groupVolleysIntoSessions_loop sessionTimeout _ st = Inr st"

definition groupVolleysIntoSessions :: "Volley list \<Rightarrow> real \<Rightarrow> js_error + Session list" where
  "groupVolleysIntoSessions volleys' sessionTimeout =
     (if length volleys' = 0 then Inr []
      else
        case groupVolleysIntoSessions_loop sessionTimeout volleys' ([], [volleys' ! 0]) of
          Inl e \<Rightarrow> Inl e
        | Inr (sessions, currentSession) \<Rightarrow>
            if length currentSession > 0 then
              (case buildSession currentSession of
                 Inl e \<Rightarrow> Inl e
               | Inr s \<Rightarrow> Inr (sessions @ [s]))
            else Inr sessions)"

section \<open>Segmentation engine (\<open>segmentation/index.ts\<close>)\<close>

subsection \<open>Phase 1: messages to turns\<close>

text \<open>\<open>messages[0]\<close> is \<open>undefined\<close> on an empty array, and reading its field throws.\<close>

definition createTurn :: "Message list \<Rightarrow> int \<Rightarrow> js_error + Turn" where
  "createTurn messages' senderId =
     (if length messages' = 0 then Inl TypeError
      else
        let startTime = parseDate (sent_at (messages' ! 0));
            endTime = parseDate (sent_at (messages' ! (length messages' - 1)))
        in Inr \<lparr>messages = messages',
                sender_id = senderId,
                Turn.start_time = startTime,
                Turn.end_time = endTime\<rparr>)"

text \<open>The gaps pushed by \<open>for (i = 1; i < sorted.length; i++)\<close>.\<close>

fun message_gaps :: "Message list \<Rightarrow> real list" where
  "message_gaps (prevMsg # currMsg # rest) =
     getGapSeconds (parseDate (sent_at prevMsg)) (parseDate (sent_at currMsg)) #
     message_gaps (currMsg # rest)"
| "message_gaps _ = []"

text \<open>The value of \<open>turnTimeout\<close> after the block \<open>if (!turnTimeout) { ... }\<close>.\<close>

definition turnTimeout_used :: "Message list \<Rightarrow> real option \<Rightarrow> real" where
  "turnTimeout_used sorted' turnTimeout =
     (if js_not turnTimeout then turn_timeout (calculateTimeouts (message_gaps sorted'))
      else the turnTimeout)"

fun messagesToTurns_loop ::
  "real \<Rightarrow> Message list \<Rightarrow> Turn list \<times> Message list \<times> int \<Rightarrow>
   js_error + Turn list \<times> Message list \<times> int" where
  "messagesToTurns_loop turnTimeout (prevMsg # currMsg # rest)
       (turns', currentTurn, currentSender) =
     (let gap = getGapSeconds (parseDate (sent_at prevMsg)) (parseDate (sent_at currMsg));
          senderChanged = (from_id currMsg \<noteq> currentSender);
          timeoutExceeded = (gap > turnTimeout)
      in if senderChanged \<or> timeoutExceeded then
           (case createTurn currentTurn currentSender of
              Inl e \<Rightarrow> Inl e
            | Inr t \<Rightarrow>
                messagesToTurns_loop turnTimeout (currMsg # rest)
                  (turns' @ [t], [currMsg], from_id currMsg))
         else
           messagesToTurns_loop turnTimeout (currMsg # rest)
             (turns', currentTurn @ [currMsg], currentSender))"
| "messagesToTurns_loop turnTimeout _ st = Inr st"

text \<open>
  The comparator \<open>parseDate(a.sent_at).getTime() - parseDate(b.sent_at).getTime()\<close> orders by
  time value, and \<open>Array.prototype.sort\<close> is stable: the copy is \<open>sort_key\<close> on the time.
\<close>

definition messagesToTurns :: "Message list \<Rightarrow> real option \<Rightarrow> js_error + Turn list" where
  "messagesToTurns messages' turnTimeout =
     (if length messages' = 0 then Inr []
      else
        let sorted = sort_key (\<lambda>m. parseDate (sent_at m)) messages';
            turnTimeout' = turnTimeout_used sorted turnTimeout
        in case messagesToTurns_loop turnTimeout' sorted
                  ([], [sorted ! 0], from_id (sorted ! 0)) of
             Inl e \<Rightarrow> Inl e
           | Inr (turns', currentTurn, currentSender) \<Rightarrow>
               if length currentTurn > 0 then
                 (case createTurn currentTurn currentSender of
                    Inl e \<Rightarrow> Inl e
                  | Inr t \<Rightarrow> Inr (turns' @ [t]))
               else Inr turns')"

subsection \<open>Phase 2: turns to volleys\<close>

fun turn_gaps :: "Turn list \<Rightarrow> real list" where
  "turn_gaps (prevTurn # currTurn # rest) =
     getGapSeconds (Turn.end_time prevTurn) (Turn.start_time currTurn) #
     turn_gaps (currTurn # rest)"
| "turn_gaps _ = []"

text \<open>The value of \<open>threadletTimeout\<close> after the block \<open>if (!threadletTimeout) { ... }\<close>.\<close>

definition threadletTimeout_used :: "Turn list \<Rightarrow> real option \<Rightarrow> real" where
  "threadletTimeout_used turns' threadletTimeout =
     (if js_not threadletTimeout then threadlet_timeout (calculateTimeouts (turn_gaps turns'))
      else the threadletTimeout)"

fun turnsToVolleys_loop ::
  "(string \<Rightarrow> string) \<Rightarrow> real \<Rightarrow> Turn list \<Rightarrow> Volley list \<times> Turn list \<Rightarrow>
   js_error + Volley list \<times> Turn list" where
  "turnsToVolleys_loop sha256 threadletTimeout (prevTurn # currTurn # rest)
       (volleys', currentVolley) =
     (let gap = getGapSeconds (Turn.end_time prevTurn) (Turn.start_time currTurn)
      in if gap > threadletTimeout then
           (case buildVolley sha256 currentVolley of
              Inl e \<Rightarrow> Inl e
            | Inr v \<Rightarrow>
                turnsToVolleys_loop sha256 threadletTimeout (currTurn # rest)
                  (volleys' @ [v], [currTurn]))
         else
           turnsToVolleys_loop sha256 threadletTimeout (currTurn # rest)
             (volleys', currentVolley @ [currTurn]))"
| "turnsToVolleys_loop sha256 threadletTimeout _ st = Inr st"

definition turnsToVolleys ::
  "(string \<Rightarrow> string) \<Rightarrow> Turn list \<Rightarrow> real option \<Rightarrow> js_error + Volley list" where
  "turnsToVolleys sha256 turns' threadletTimeout =
     (if length turns' = 0 then Inr []
      else
        let threadletTimeout' = threadletTimeout_used turns' threadletTimeout
        in case turnsToVolleys_loop sha256 threadletTimeout' turns' ([], [turns' ! 0]) of
             Inl e \<Rightarrow> Inl e
           | Inr (volleys', currentVolley) \<Rightarrow>
               if length currentVolley > 0 then
                 (case buildVolley sha256 currentVolley of
                    Inl e \<Rightarrow> Inl e
                  | Inr v \<Rightarrow> Inr (volleys' @ [v]))
               else Inr volleys')"

subsection \<open>Phase 3: volleys to sessions\<close>

fun volley_gaps :: "Volley list \<Rightarrow> real list" where
  "volley_gaps (prevVolley # currVolley # rest) =
     getGapSeconds (Volley.end_time prevVolley) (Volley.start_time currVolley) #
     volley_gaps (currVolley # rest)"
| "volley_gaps _ = []"

text \<open>The value of \<open>sessionTimeout\<close> after the block \<open>if (!sessionTimeout) { ... }\<close>.\<close>

definition sessionTimeout_used :: "Volley list \<Rightarrow> real option \<Rightarrow> real" where
  "sessionTimeout_used volleys' sessionTimeout =
     (if js_not sessionTimeout then session_timeout (calculateTimeouts (volley_gaps volleys'))
      else the sessionTimeout)"

definition volleysToSessions :: "Volley list \<Rightarrow> real option \<Rightarrow> js_error + Session list" where
  "volleysToSessions volleys' sessionTimeout =
     (if length volleys' = 0 then Inr []
      else groupVolleysIntoSessions volleys' (sessionTimeout_used volleys' sessionTimeout))"

section \<open>Vocabulary of the specification\<close>

text \<open>
  The specification's condition for a new turn: the sender changes or the gap since the
  previous message exceeds the turn timeout (strictly).
\<close>

definition starts_new_turn :: "real \<Rightarrow> Message \<Rightarrow> Message \<Rightarrow> bool" where
  "starts_new_turn T prevMsg currMsg =
     (from_id currMsg \<noteq> from_id prevMsg
      \<or> getGapSeconds (parseDate (sent_at prevMsg)) (parseDate (sent_at currMsg)) > T)"

text \<open>
  The specification's condition for a new volley: the gap between the previous turn's end and
  the current turn's start exceeds the volley timeout (strictly).
\<close>

definition starts_new_volley :: "real \<Rightarrow> Turn \<Rightarrow> Turn \<Rightarrow> bool" where
  "starts_new_volley T prevTurn currTurn =
     (getGapSeconds (Turn.end_time prevTurn) (Turn.start_time currTurn) > T)"

text \<open>The time of day \<open>HH:MM\<close> (UTC) of a time value, and the label of a pivot line.\<close>

definition time_of_day :: "int \<Rightarrow> string" where
  "time_of_day t =
     (let ms = t mod 86400000
      in padStart0 2 (nat (ms div 3600000)) @ '':'' @ padStart0 2 (nat (ms div 60000 mod 60)))"

definition sender_label :: "int list \<Rightarrow> Message \<Rightarrow> string" where
  "sender_label ps msg = (if ps \<noteq> [] \<and> from_id msg = hd ps then ''Me'' else ''Them'')"

text \<open>
  The accumulation pattern shared by the three phases, on any list and any boundary test
  \<open>B\<close>: the finished runs and the current run. \<open>runs_ok\<close> says that a list of runs is
  split exactly at the boundaries: no run is empty, no boundary lies inside a run, and a
  boundary separates each run from the next.
\<close>

fun runs_loop ::
  "('a \<Rightarrow> 'a \<Rightarrow> bool) \<Rightarrow> 'a list \<Rightarrow> 'a list list \<times> 'a list \<Rightarrow> 'a list list \<times> 'a list" where
  "runs_loop B (p # c # rest) (fin, cur) =
     (if B p c then runs_loop B (c # rest) (fin @ [cur], [c])
      else runs_loop B (c # rest) (fin, cur @ [c]))"
| "runs_loop B _ st = st"

definition runs_ok :: "('a \<Rightarrow> 'a \<Rightarrow> bool) \<Rightarrow> 'a list list \<Rightarrow> bool" where
  "runs_ok B gs =
     ((\<forall>g\<in>set gs. g \<noteq> [] \<and> successively (\<lambda>a b. \<not> B a b) g)
      \<and> successively (\<lambda>g h. B (last g) (hd h)) gs)"

text \<open>Reading a decimal numeral back, the inverse of \<open>Number_toString\<close>.\<close>

definition digits_value :: "string \<Rightarrow> nat" where
  "digits_value s = foldl (\<lambda>acc c. 10 * acc + (of_char c - 48)) 0 s"

definition parse_integer :: "string \<Rightarrow> int" where
  "parse_integer s =
     (case s of
        [] \<Rightarrow> 0
      | c # r \<Rightarrow> if c = CHR ''-'' then - int (digits_value r) else int (digits_value s))"

section \<open>Concrete inputs\<close>

text \<open>
  \<open>createMessage\<close> is the helper of \<open>__tests__/segmentation.test.ts\<close>. \<open>scenario\<close> is the
  end-to-end scenario of the specification: messages at 0 s (A), 30 s (A), 65 s (B),
  95 s (B) and 400 s (A), with A = 1 and B = 2.
\<close>

definition createMessage :: "int \<Rightarrow> int \<Rightarrow> int \<Rightarrow> string \<Rightarrow> int \<Rightarrow> Message" where
  "createMessage id' fromId chatId content' sentAt =
     \<lparr>ID = id', chat_id = chatId, from_id = fromId, content = content', sent_at = sentAt,
      message_id = ''msg_'' @ Number_toString id', key_version = 1,
      CreatedAt = toISOString sentAt, UpdatedAt = toISOString sentAt\<rparr>"

definition scenario :: "Message list" where
  "scenario =
     [createMessage 1 1 1 ''a'' 0,
      createMessage 2 1 1 ''b'' 30000,
      createMessage 3 2 1 ''c'' 65000,
      createMessage 4 2 1 ''d'' 95000,
      createMessage 5 1 1 ''e'' 400000]"

definition equal_gap_messages :: "Message list" where
  "equal_gap_messages =
     [createMessage 1 7 1 ''a'' 0,
      createMessage 2 7 1 ''b'' 60000,
      createMessage 3 7 1 ''c'' 120001]"

text \<open>A turn of one message, as the tests build turns by hand.\<close>

definition single_turn :: "Message \<Rightarrow> Turn" where
  "single_turn m =
     \<lparr>messages = [m], sender_id = from_id m,
      Turn.start_time = sent_at m, Turn.end_time = sent_at m\<rparr>"

definition nine_and_ten :: "Turn list" where
  "nine_and_ten =
     [single_turn (createMessage 1 9 1 ''hi'' 1704103200000),
      single_turn (createMessage 2 10 1 ''yo'' 1704103260000)]"

definition two_turns :: "Turn list" where
  "two_turns =
     [single_turn (createMessage 1 1 1 ''hello'' 0),
      single_turn (createMessage 2 2 1 ''hi'' 60000)]"

definition three_turns :: "Turn list" where
  "three_turns =
     [single_turn (createMessage 1 2 1 ''x'' 0),
      single_turn (createMessage 2 1 1 ''y'' 30000),
      single_turn (createMessage 3 2 1 ''z'' 60000)]"

definition scenario_turns :: "Turn list" where
  "scenario_turns =
     [\<lparr>messages = [createMessage 1 1 1 ''a'' 0, createMessage 2 1 1 ''b'' 30000],
       sender_id = 1, Turn.start_time = 0, Turn.end_time = 30000\<rparr>,
      \<lparr>messages = [createMessage 3 2 1 ''c'' 65000, createMessage 4 2 1 ''d'' 95000],
       sender_id = 2, Turn.start_time = 65000, Turn.end_time = 95000\<rparr>,
      \<lparr>messages = [createMessage 5 1 1 ''e'' 400000],
       sender_id = 1, Turn.start_time = 400000, Turn.end_time = 400000\<rparr>]"

text \<open>
  A stand-in for \<open>sha256\<close> where a theorem is instantiated: like the hexadecimal digest, it
  returns 64 characters.
\<close>

definition digest_stub :: "string \<Rightarrow> string" where
  "digest_stub s = take 64 (s @ replicate 64 (CHR ''0''))"

section \<open>Theorems\<close>

subsection \<open>Knee-point threshold estimator\<close>












subsection \<open>Splitting a list into runs\<close>

lemma runs_ok_close:
  assumes "runs_ok B (fin @ [cur])" "B (last cur) c"
  shows "runs_ok B ((fin @ [cur]) @ [[c]])"
  using assms unfolding runs_ok_def
  by (simp add: successively_append_iff)

lemma runs_ok_extend:
  assumes "runs_ok B (fin @ [cur])" "\<not> B (last cur) c"
  shows "runs_ok B (fin @ [cur @ [c]])"
  using assms unfolding runs_ok_def
  by (auto simp: successively_append_iff)

lemma runs_loop_inv:
  assumes "runs_ok B (fin @ [cur])" "last cur = p"
    and "runs_loop B (p # rest) (fin, cur) = (fin', cur')"
  shows "runs_ok B (fin' @ [cur']) \<and> concat fin' @ cur' = concat fin @ cur @ rest"
  using assms
proof (induction rest arbitrary: p fin cur)
  case Nil
  then show ?case by simp
next
  case (Cons c rest)
  show ?case
  proof (cases "B p c")
    case True
    with Cons.prems have ok: "runs_ok B ((fin @ [cur]) @ [[c]])"
      by (intro runs_ok_close) simp_all
    have run: "runs_loop B (c # rest) (fin @ [cur], [c]) = (fin', cur')"
      using Cons.prems(3) True by simp
    from Cons.IH [of "fin @ [cur]" "[c]" c] ok run show ?thesis by simp
  next
    case False
    with Cons.prems have ok: "runs_ok B (fin @ [cur @ [c]])"
      by (intro runs_ok_extend) simp_all
    have run: "runs_loop B (c # rest) (fin, cur @ [c]) = (fin', cur')"
      using Cons.prems(3) False by simp
    from Cons.IH [of fin "cur @ [c]" c] ok run show ?thesis by simp
  qed
qed

lemma runs_loop_start:
  assumes "runs_loop B (x # xs) ([], [x]) = (fin', cur')"
  shows "runs_ok B (fin' @ [cur']) \<and> concat (fin' @ [cur']) = x # xs"
proof -
  have "runs_ok B ([] @ [[x]])" by (simp add: runs_ok_def)
  from runs_loop_inv [OF this _ assms] show ?thesis by simp
qed

lemma runs_ok_map:
  "runs_ok B (map f xs) =
     ((\<forall>x\<in>set xs. f x \<noteq> [] \<and> successively (\<lambda>a b. \<not> B a b) (f x))
      \<and> successively (\<lambda>x y. B (last (f x)) (hd (f y))) xs)"
  by (simp add: runs_ok_def successively_map)

subsection \<open>Strings, decimal numerals and ISO dates\<close>

lemma js_split_not_Nil: "js_split c s \<noteq> []"
  by (induction s) (auto split: list.splits)

lemma js_split_two_parts: "2 \<le> length (js_split c (a @ c # b))"
proof (induction a)
  case Nil
  have "js_split c b \<noteq> []" by (rule js_split_not_Nil)
  then show ?case by (cases "js_split c b") simp_all
next
  case (Cons x a)
  then show ?case by (auto split: list.splits)
qed

lemma js_split_at_first:
  "c \<notin> set a \<Longrightarrow> js_split c (a @ c # b) = a # js_split c b"
  by (induction a) auto

lemma js_split_hd: "hd (js_split c b) = takeWhile (\<lambda>x. x \<noteq> c) b"
  by (induction b) (auto simp: js_split_not_Nil split: list.splits)

lemma digit_char_digit: "d < 10 \<Longrightarrow> digit_char d \<in> set ''0123456789''"
  unfolding digit_char_def by (rule nth_mem) simp

lemma nat_toString_digits: "set (nat_toString n) \<subseteq> set ''0123456789''"
proof (induction n rule: nat_toString.induct)
  case (1 n)
  show ?case
  proof (cases "n < 10")
    case True
    then show ?thesis using digit_char_digit [of n] by (subst nat_toString.simps) simp
  next
    case False
    have "digit_char (n mod 10) \<in> set ''0123456789''" by (rule digit_char_digit) simp
    with False "1.IH" show ?thesis by (subst nat_toString.simps) simp
  qed
qed

lemma nat_toString_length:
  "n < 10 \<Longrightarrow> length (nat_toString n) = 1"
  "10 \<le> n \<Longrightarrow> n < 100 \<Longrightarrow> length (nat_toString n) = 2"
proof -
  show "n < 10 \<Longrightarrow> length (nat_toString n) = 1" by (subst nat_toString.simps) simp
  assume "10 \<le> n" "n < 100"
  then have "n div 10 < 10" by simp
  then have "length (nat_toString (n div 10)) = 1" by (subst nat_toString.simps) simp
  with \<open>10 \<le> n\<close> show "length (nat_toString n) = 2" by (subst nat_toString.simps) simp
qed

lemma nat_toString_not_Nil: "nat_toString n \<noteq> []"
  by (subst nat_toString.simps) simp

lemma nat_toString_no_minus: "hd (nat_toString n) \<noteq> CHR ''-''"
proof -
  have "hd (nat_toString n) \<in> set (nat_toString n)"
    by (rule hd_in_set) (rule nat_toString_not_Nil)
  with nat_toString_digits [of n] show ?thesis by auto
qed

lemma padStart0_digits: "set (padStart0 w n) \<subseteq> set ''0123456789''"
  using nat_toString_digits [of n] by (auto simp: padStart0_def)

lemma padStart0_2_length: "n < 100 \<Longrightarrow> length (padStart0 2 n) = 2"
  using nat_toString_length [of n] by (cases "n < 10") (simp_all add: padStart0_def)

lemma padStart0_no_T: "CHR ''T'' \<notin> set (padStart0 w n)"
  using padStart0_digits [of w n] by auto

lemma iso_date_part_no_T: "CHR ''T'' \<notin> set (iso_date_part t)"
  by (auto simp: iso_date_part_def iso_year_def padStart0_no_T split: prod.splits)

lemma take_5_time:
  assumes "length hh = 2" "length mm = 2" "CHR ''T'' \<notin> set hh" "CHR ''T'' \<notin> set mm"
  shows "take 5 (takeWhile (\<lambda>x. x \<noteq> CHR ''T'') (hh @ '':'' @ mm @ rest)) = hh @ '':'' @ mm"
proof -
  have "takeWhile (\<lambda>x. x \<noteq> CHR ''T'') ((hh @ '':'' @ mm) @ rest)
        = (hh @ '':'' @ mm) @ takeWhile (\<lambda>x. x \<noteq> CHR ''T'') rest"
    using assms(3,4) by (intro takeWhile_append2) auto
  then show ?thesis using assms(1,2) by simp
qed

lemma toISOString_time_of_day:
  "take 5 (js_split (CHR ''T'') (toISOString t) ! 1) = time_of_day t"
proof -
  define ms where "ms = t mod 86400000"
  define hh where "hh = padStart0 2 (nat (ms div 3600000))"
  define mm where "mm = padStart0 2 (nat (ms div 60000 mod 60))"
  define rest where "rest = '':'' @ padStart0 2 (nat (ms div 1000 mod 60)) @ ''.'' @
                            padStart0 3 (nat (ms mod 1000)) @ ''Z''"
  have ms: "0 \<le> ms" "ms < 86400000" by (simp_all add: ms_def)
  then have "ms div 3600000 < 24" by simp
  then have lh: "length hh = 2" unfolding hh_def by (intro padStart0_2_length) simp
  have "ms div 60000 mod 60 < 60" by simp
  then have lm: "length mm = 2" unfolding mm_def by (intro padStart0_2_length) simp
  have part: "iso_time_part t = hh @ '':'' @ mm @ rest"
    by (simp add: iso_time_part_def Let_def ms_def hh_def mm_def rest_def)
  have "js_split (CHR ''T'') (toISOString t) = iso_date_part t # js_split (CHR ''T'') (iso_time_part t)"
    unfolding toISOString_def using js_split_at_first [OF iso_date_part_no_T] by simp
  then have "js_split (CHR ''T'') (toISOString t) ! 1 = takeWhile (\<lambda>x. x \<noteq> CHR ''T'') (iso_time_part t)"
    by (simp add: js_split_hd [symmetric] hd_conv_nth js_split_not_Nil)
  also have "take 5 \<dots> = hh @ '':'' @ mm"
    unfolding part by (rule take_5_time [OF lh lm]) (simp_all add: hh_def mm_def padStart0_no_T)
  finally show ?thesis by (simp add: time_of_day_def Let_def ms_def hh_def mm_def)
qed

lemma digit_char_value: "d < 10 \<Longrightarrow> of_char (digit_char d) - 48 = d"
proof -
  assume "d < 10"
  then have "d \<in> {0, 1, 2, 3, 4, 5, 6, 7, 8, 9}" by auto
  then show ?thesis by (auto simp: digit_char_def)
qed

lemma digits_value_snoc: "digits_value (s @ [c]) = 10 * digits_value s + (of_char c - 48)"
  by (simp add: digits_value_def)

lemma digits_value_nat_toString: "digits_value (nat_toString n) = n"
proof (induction n rule: nat_toString.induct)
  case (1 n)
  show ?case
  proof (cases "n < 10")
    case True
    then show ?thesis
      by (subst nat_toString.simps) (simp add: digits_value_def digit_char_value)
  next
    case False
    with "1.IH" have "digits_value (nat_toString (n div 10)) = n div 10" by simp
    with False show ?thesis
      by (subst nat_toString.simps) (simp add: digits_value_snoc digit_char_value)
  qed
qed

lemma parse_integer_Number_toString: "parse_integer (Number_toString i) = i"
proof (cases "i < 0")
  case True
  then show ?thesis by (simp add: parse_integer_def Number_toString_def digits_value_nat_toString)
next
  case False
  obtain c r where cr: "nat_toString (nat i) = c # r"
    using nat_toString_not_Nil [of "nat i"] by (cases "nat_toString (nat i)") auto
  with nat_toString_no_minus [of "nat i"] have "c \<noteq> CHR ''-''" by simp
  with False cr digits_value_nat_toString [of "nat i"] show ?thesis
    by (simp add: parse_integer_def Number_toString_def)
qed

lemma inj_Number_toString: "inj Number_toString"
  by (rule inj_on_inverseI [of _ parse_integer]) (rule parse_integer_Number_toString)

lemma Array_from_Set_foldl:
  "distinct acc \<Longrightarrow>
   distinct (foldl (\<lambda>acc x. if x \<in> set acc then acc else acc @ [x]) acc xs)
   \<and> set (foldl (\<lambda>acc x. if x \<in> set acc then acc else acc @ [x]) acc xs) = set acc \<union> set xs"
  by (induction xs arbitrary: acc) auto

lemma distinct_Array_from_Set: "distinct (Array_from_Set xs)"
  and set_Array_from_Set: "set (Array_from_Set xs) = set xs"
  using Array_from_Set_foldl [of "[]" xs] by (simp_all add: Array_from_Set_def)

lemma sort_key_inj_unique:
  assumes "inj f" "distinct xs" "distinct ys" "set xs = set ys"
  shows "sort_key f xs = sort_key f ys"
proof -
  have "map f (sort_key f xs) = map f (sort_key f ys)"
  proof (rule sorted_distinct_set_unique)
    show "sorted (map f (sort_key f xs))" "sorted (map f (sort_key f ys))" by simp_all
    show "distinct (map f (sort_key f xs))" "distinct (map f (sort_key f ys))"
      using assms(1-3) by (simp_all add: distinct_map inj_on_subset [OF assms(1)])
    show "set (map f (sort_key f xs)) = set (map f (sort_key f ys))"
      using assms(4) by simp
  qed
  with assms(1) show ?thesis by (simp add: inj_map_eq_map)
qed

lemma sort_default_set_unique:
  "distinct xs \<Longrightarrow> distinct ys \<Longrightarrow> set xs = set ys \<Longrightarrow> sort_default xs = sort_default ys"
  unfolding sort_default_def by (rule sort_key_inj_unique [OF inj_Number_toString])

lemma nat_toString_digit: "n < 10 \<Longrightarrow> nat_toString n = [digit_char n]"
  by (simp add: nat_toString.simps)

lemma nat_toString_more:
  "10 \<le> n \<Longrightarrow> nat_toString n = nat_toString (n div 10) @ [digit_char (n mod 10)]"
  by (subst nat_toString.simps) simp

lemmas eval_string =
  nat_toString_digit nat_toString_more digit_char_def Number_toString_def padStart0_def

subsection \<open>Volley builder\<close>

lemma pivot_line_eq:
  "pivot_line ps m =
     Inr (time_of_day (sent_at m) @ '' - '' @ sender_label ps m @ '': '' @ content m)"
proof -
  have "2 \<le> length (js_split (CHR ''T'') (toISOString (sent_at m)))"
    unfolding toISOString_def using js_split_two_parts [of "CHR ''T''"] by simp
  then have "\<not> length (js_split (CHR ''T'') (toISOString (sent_at m))) \<le> 1" by simp
  then show ?thesis
    by (cases ps) (simp_all add: pivot_line_def Let_def parseDate_def sender_label_def
        toISOString_time_of_day [unfolded One_nat_def])
qed

lemma map_throw_total: "(\<And>x. f x = Inr (g x)) \<Longrightarrow> map_throw f xs = Inr (map g xs)"
  by (induction xs) simp_all

lemma buildVolley_eq:
  assumes "ts \<noteq> []"
  shows "buildVolley H ts =
     Inr \<lparr>volley_id = createVolleyId H (Turn.start_time (hd ts)) (Turn.end_time (last ts))
                        (sort_default (Array_from_Set (map sender_id ts))),
          turns = ts,
          Volley.participants = sort_default (Array_from_Set (map sender_id ts)),
          Volley.start_time = Turn.start_time (hd ts),
          Volley.end_time = Turn.end_time (last ts),
          depth = fst (fold depth_step ts (0, None)),
          message_count = length (concat (map Turn.messages ts)),
          pivot_text = js_join [CHR 0x0A]
            (map (\<lambda>m. time_of_day (sent_at m) @ '' - '' @
                       sender_label (sort_default (Array_from_Set (map sender_id ts))) m @
                       '': '' @ content m)
               (concat (map Turn.messages ts)))\<rparr>"
  using assms
  by (simp add: buildVolley_def Let_def hd_conv_nth last_conv_nth
      map_throw_total [of "pivot_line _", OF pivot_line_eq])

lemma buildVolley_returns:
  assumes "ts \<noteq> []"
  shows "\<exists>v. buildVolley H ts = Inr v \<and> Volley.turns v = ts"
  using buildVolley_eq [OF assms, of H] by simp

lemma buildVolley_participants:
  assumes "buildVolley H ts = Inr v"
  shows "ts \<noteq> []"
    and "Volley.participants v = sort_default (Array_from_Set (map sender_id ts))"
    and "volley_id v = createVolleyId H (Volley.start_time v) (Volley.end_time v)
                         (Volley.participants v)"
proof -
  show ne: "ts \<noteq> []" using assms by (auto simp: buildVolley_def)
  from buildVolley_eq [OF ne, of H] assms
  show "Volley.participants v = sort_default (Array_from_Set (map sender_id ts))"
    "volley_id v = createVolleyId H (Volley.start_time v) (Volley.end_time v)
                         (Volley.participants v)"
    by auto
qed



text \<open>
  Claim C3. The identifier of a volley is a function of its start time, its end time and its
  sorted participant list only: two volleys built from any two turn lists, with the same
  start time, end time and participant set, have the same identifier, whatever their
  messages and turns; the identifier has 16 characters (the digest has 64).
\<close>

theorem volley_id_deterministic:
  assumes "buildVolley H ts1 = Inr v1" "buildVolley H ts2 = Inr v2"
    and "Volley.start_time v1 = Volley.start_time v2"
    and "Volley.end_time v1 = Volley.end_time v2"
    and "set (Volley.participants v1) = set (Volley.participants v2)"
  shows "volley_id v1 = volley_id v2
       \<and> volley_id v1 = createVolleyId H (Volley.start_time v1) (Volley.end_time v1)
                           (Volley.participants v1)
       \<and> ((\<forall>s. length (H s) = 64) \<longrightarrow> length (volley_id v1) = 16)"
proof -
  note p1 = buildVolley_participants [OF assms(1)]
  note p2 = buildVolley_participants [OF assms(2)]
  have "set (Array_from_Set (map sender_id ts1)) = set (Array_from_Set (map sender_id ts2))"
    using assms(5) by (simp add: p1(2) p2(2) sort_default_def)
  then have "Volley.participants v1 = Volley.participants v2"
    unfolding p1(2) p2(2)
    by (intro sort_default_set_unique distinct_Array_from_Set)
  with assms(3,4) have "volley_id v1 = volley_id v2" by (simp add: p1(3) p2(3))
  moreover have "(\<forall>s. length (H s) = 64) \<longrightarrow> length (volley_id v1) = 16"
    by (simp add: p1(3) createVolleyId_def Let_def)
  ultimately show ?thesis using p1(3) by simp
qed

lemma two_turns_participants: "sort_default (Array_from_Set (map sender_id two_turns)) = [1, 2]"
  by (simp add: two_turns_def single_turn_def createMessage_def Array_from_Set_def
      sort_default_def eval_string)

lemma three_turns_participants:
  "sort_default (Array_from_Set (map sender_id three_turns)) = [1, 2]"
  by (simp add: three_turns_def single_turn_def createMessage_def Array_from_Set_def
      sort_default_def eval_string)

theorem volley_id_deterministic_witness:
  "\<exists>v1 v2. buildVolley digest_stub two_turns = Inr v1
         \<and> buildVolley digest_stub three_turns = Inr v2
         \<and> map (map content \<circ> Turn.messages) (Volley.turns v1) = [[''hello''], [''hi'']]
         \<and> map (map content \<circ> Turn.messages) (Volley.turns v2) = [[''x''], [''y''], [''z'']]
         \<and> volley_id v1 = volley_id v2
         \<and> length (volley_id v1) = 16"
proof -
  have ne: "two_turns \<noteq> []" "three_turns \<noteq> []"
    by (simp_all add: two_turns_def three_turns_def)
  obtain v1 where v1: "buildVolley digest_stub two_turns = Inr v1"
    and t1: "Volley.turns v1 = two_turns"
    and s1: "Volley.start_time v1 = Turn.start_time (hd two_turns)"
    and e1: "Volley.end_time v1 = Turn.end_time (last two_turns)"
    and p1: "Volley.participants v1 = sort_default (Array_from_Set (map sender_id two_turns))"
    using buildVolley_eq [OF ne(1), of digest_stub] by simp
  obtain v2 where v2: "buildVolley digest_stub three_turns = Inr v2"
    and t2: "Volley.turns v2 = three_turns"
    and s2: "Volley.start_time v2 = Turn.start_time (hd three_turns)"
    and e2: "Volley.end_time v2 = Turn.end_time (last three_turns)"
    and p2: "Volley.participants v2 = sort_default (Array_from_Set (map sender_id three_turns))"
    using buildVolley_eq [OF ne(2), of digest_stub] by simp
  have st: "Volley.start_time v1 = Volley.start_time v2"
    by (simp add: s1 s2 two_turns_def three_turns_def single_turn_def createMessage_def)
  have en: "Volley.end_time v1 = Volley.end_time v2"
    by (simp add: e1 e2 two_turns_def three_turns_def single_turn_def createMessage_def)
  have ps: "set (Volley.participants v1) = set (Volley.participants v2)"
    by (simp add: p1 p2 two_turns_participants three_turns_participants)
  have len: "\<forall>s. length (digest_stub s) = 64" by (auto simp: digest_stub_def)
  note det = volley_id_deterministic [OF v1 v2 st en ps]
  have "volley_id v1 = volley_id v2" using det by blast
  moreover have "length (volley_id v1) = 16" using det len by blast
  moreover have "map (map content \<circ> Turn.messages) (Volley.turns v1) = [[''hello''], [''hi'']]"
    by (simp add: t1 two_turns_def single_turn_def createMessage_def)
  moreover have "map (map content \<circ> Turn.messages) (Volley.turns v2) = [[''x''], [''y''], [''z'']]"
    by (simp add: t2 three_turns_def single_turn_def createMessage_def)
  ultimately show ?thesis using v1 v2 by (intro exI [of _ v1] exI [of _ v2]) simp
qed

lemma nine_and_ten_participants:
  "sort_default (Array_from_Set (map sender_id nine_and_ten)) = [10, 9]"
  by (simp add: nine_and_ten_def single_turn_def createMessage_def Array_from_Set_def
      sort_default_def eval_string)

text \<open>
  Claim C2 says that the participants of a volley are the distinct sender identifiers in
  ascending numeric order. \<open>buildVolley\<close> sorts them with \<open>sort()\<close> and no comparator, that
  is by their decimal strings: for the senders 9 and 10 the participants are \<open>[10, 9]\<close>,
  while the numeric order is \<open>[9, 10]\<close>.
\<close>

theorem participants_in_string_order:
  "\<exists>v. buildVolley H nine_and_ten = Inr v
      \<and> Volley.participants v = [10, 9]
      \<and> sort (remdups (map sender_id nine_and_ten)) = [9, 10]"
proof -
  have "nine_and_ten \<noteq> []" by (simp add: nine_and_ten_def)
  from buildVolley_eq [OF this, of H] obtain v
    where "buildVolley H nine_and_ten = Inr v"
      "Volley.participants v = sort_default (Array_from_Set (map sender_id nine_and_ten))"
    by simp
  moreover have "sort (remdups (map sender_id nine_and_ten)) = [9, 10]"
    by (simp add: nine_and_ten_def single_turn_def createMessage_def)
  ultimately show ?thesis by (simp add: nine_and_ten_participants)
qed

text \<open>
  Claim C1 says that a line of the pivot text is \<open>HH:MM - label: content\<close> with the label
  \<open>Me\<close> exactly for the numerically smallest participant. The line has that form
  (\<open>buildVolley_eq\<close>), but the label \<open>Me\<close> goes to the first participant in string order:
  for the senders 9 and 10 the message of 9, the smallest participant, is labelled \<open>Them\<close>
  and the message of 10 is labelled \<open>Me\<close>.
\<close>

theorem me_label_in_string_order:
  "\<exists>v. buildVolley H nine_and_ten = Inr v
      \<and> pivot_text v = ''10:00 - Them: hi'' @ [CHR 0x0A] @ ''10:01 - Me: yo''
      \<and> Min (set (Volley.participants v)) = 9"
proof -
  have "nine_and_ten \<noteq> []" by (simp add: nine_and_ten_def)
  from buildVolley_eq [OF this, of H] obtain v
    where v: "buildVolley H nine_and_ten = Inr v"
      and p: "Volley.participants v = sort_default (Array_from_Set (map sender_id nine_and_ten))"
      and t: "pivot_text v = js_join [CHR 0x0A]
            (map (\<lambda>m. time_of_day (sent_at m) @ '' - '' @
                       sender_label (sort_default (Array_from_Set (map sender_id nine_and_ten))) m @
                       '': '' @ content m)
               (concat (map Turn.messages nine_and_ten)))"
    by simp
  have "pivot_text v = ''10:00 - Them: hi'' @ [CHR 0x0A] @ ''10:01 - Me: yo''"
    unfolding t nine_and_ten_participants
    by (simp add: nine_and_ten_def single_turn_def createMessage_def time_of_day_def
        sender_label_def eval_string)
  with v p show ?thesis by (simp add: nine_and_ten_participants)
qed

subsection \<open>Phase 1: messages to turns\<close>

lemma createTurn_returns:
  "cur \<noteq> [] \<Longrightarrow> \<exists>t. createTurn cur s = Inr t \<and> Turn.messages t = cur \<and> sender_id t = s"
  by (simp add: createTurn_def Let_def)

lemma messagesToTurns_loop_step:
  "s = from_id p \<Longrightarrow>
   messagesToTurns_loop T (p # c # rest) (ts, cur, s) =
     (if starts_new_turn T p c then
        (case createTurn cur s of
           Inl e \<Rightarrow> Inl e
         | Inr t \<Rightarrow> messagesToTurns_loop T (c # rest) (ts @ [t], [c], from_id c))
      else messagesToTurns_loop T (c # rest) (ts, cur @ [c], s))"
  by (simp add: starts_new_turn_def Let_def)

lemma messagesToTurns_loop_sim:
  assumes "cur \<noteq> []" "last cur = p" "\<forall>m\<in>set cur. from_id m = s"
  shows "\<exists>ts' cur' s'.
           messagesToTurns_loop T (p # rest) (ts, cur, s) = Inr (ts', cur', s')
         \<and> runs_loop (starts_new_turn T) (p # rest) (map Turn.messages ts, cur)
             = (map Turn.messages ts', cur')
         \<and> cur' \<noteq> []"
  using assms
proof (induction rest arbitrary: p ts cur s)
  case Nil
  then show ?case by simp
next
  case (Cons c rest)
  have sp: "s = from_id p" using Cons.prems by (metis last_in_set)
  note step = messagesToTurns_loop_step [OF sp, of T c rest ts cur]
  show ?case
  proof (cases "starts_new_turn T p c")
    case True
    from createTurn_returns [OF Cons.prems(1)] obtain t
      where t: "createTurn cur s = Inr t" "Turn.messages t = cur" by blast
    from Cons.IH [of "[c]" c "from_id c" "ts @ [t]"] obtain ts' cur' s'
      where "messagesToTurns_loop T (c # rest) (ts @ [t], [c], from_id c) = Inr (ts', cur', s')"
        "runs_loop (starts_new_turn T) (c # rest) (map Turn.messages (ts @ [t]), [c])
           = (map Turn.messages ts', cur')" "cur' \<noteq> []"
      by auto
    with True t show ?thesis
      by (simp add: step del: messagesToTurns_loop.simps)
  next
    case False
    have "from_id c = s" using False sp by (simp add: starts_new_turn_def)
    with Cons.IH [of "cur @ [c]" c s ts] Cons.prems obtain ts' cur' s'
      where "messagesToTurns_loop T (c # rest) (ts, cur @ [c], s) = Inr (ts', cur', s')"
        "runs_loop (starts_new_turn T) (c # rest) (map Turn.messages ts, cur @ [c])
           = (map Turn.messages ts', cur')" "cur' \<noteq> []"
      by auto
    with False show ?thesis
      by (simp add: step del: messagesToTurns_loop.simps)
  qed
qed

lemma messagesToTurns_runs:
  "\<exists>ts. messagesToTurns msgs topt = Inr ts
      \<and> concat (map Turn.messages ts) = sort_key (\<lambda>m. parseDate (sent_at m)) msgs
      \<and> runs_ok (starts_new_turn
                   (turnTimeout_used (sort_key (\<lambda>m. parseDate (sent_at m)) msgs) topt))
                (map Turn.messages ts)"
proof (cases "msgs = []")
  case True
  then show ?thesis by (simp add: messagesToTurns_def runs_ok_def)
next
  case False
  define srt where "srt = sort_key (\<lambda>m. parseDate (sent_at m)) msgs"
  define T where "T = turnTimeout_used srt topt"
  from False have "length srt \<noteq> 0" by (simp add: srt_def)
  then have "srt \<noteq> []" by simp
  then obtain x xs where srt: "srt = x # xs" by (cases srt) auto
  from messagesToTurns_loop_sim [of "[x]" x "from_id x" T xs "[]"] obtain ts' cur' s'
    where loop: "messagesToTurns_loop T (x # xs) ([], [x], from_id x) = Inr (ts', cur', s')"
      and runs: "runs_loop (starts_new_turn T) (x # xs) ([], [x]) = (map Turn.messages ts', cur')"
      and ne: "cur' \<noteq> []"
    by auto
  from createTurn_returns [OF ne] obtain t
    where t: "createTurn cur' s' = Inr t" "Turn.messages t = cur'" by blast
  have loop': "messagesToTurns_loop T srt ([], [srt ! 0], from_id (srt ! 0)) = Inr (ts', cur', s')"
    using loop srt by simp
  have res: "messagesToTurns msgs topt = Inr (ts' @ [t])"
    using False loop' ne t
    by (simp add: messagesToTurns_def Let_def srt_def [symmetric] T_def [symmetric])
  from runs_loop_start [OF runs] t
  have "runs_ok (starts_new_turn T) (map Turn.messages (ts' @ [t]))"
    "concat (map Turn.messages (ts' @ [t])) = srt"
    by (simp_all add: srt)
  with res show ?thesis unfolding T_def srt_def by blast
qed

lemma scenario_result:
  "map_sum id (map (\<lambda>t. (sender_id t, map ID (Turn.messages t))))
     (messagesToTurns scenario (Some 60)) = Inr [(1, [1, 2]), (2, [3, 4]), (1, [5])]"
  by (simp add: scenario_def createMessage_def messagesToTurns_def turnTimeout_used_def
      js_not_def parseDate_def getGapSeconds_def createTurn_def)

lemma equal_gap_result:
  "map_sum id (map (\<lambda>t. (sender_id t, map ID (Turn.messages t))))
     (messagesToTurns equal_gap_messages (Some 60))
   = Inr [(7, [1, 2]), (7, [3])]"
  by (simp add: equal_gap_messages_def createMessage_def messagesToTurns_def
      turnTimeout_used_def js_not_def parseDate_def getGapSeconds_def createTurn_def)

text \<open>
  Claim C4. \<open>messagesToTurns\<close> scans the messages sorted by timestamp and starts a new turn
  exactly when the sender changes or the gap since the previous message strictly exceeds the
  turn timeout: the turns partition the sorted messages in order, no turn is empty, no
  adjacent pair inside a turn meets the condition, and the last message of a turn and the
  first of the next meet it. \<open>T\<close> is the timeout the run uses, which is the supplied one
  when it is not zero. On the scenario with a timeout of 60 s the result is three turns with
  the senders A, B, A.
\<close>

theorem messagesToTurns_splits_exactly:
  assumes "T = turnTimeout_used (sort_key (\<lambda>m. parseDate (sent_at m)) msgs) topt"
  shows "(\<exists>ts. messagesToTurns msgs topt = Inr ts
            \<and> concat (map Turn.messages ts) = sort_key (\<lambda>m. parseDate (sent_at m)) msgs
            \<and> (\<forall>t\<in>set ts. Turn.messages t \<noteq> []
                  \<and> successively (\<lambda>a b. \<not> starts_new_turn T a b) (Turn.messages t))
            \<and> successively (\<lambda>t u. starts_new_turn T (last (Turn.messages t))
                                     (hd (Turn.messages u))) ts)
       \<and> (T' \<noteq> 0 \<longrightarrow> turnTimeout_used srt (Some T') = T')
       \<and> map_sum id (map (\<lambda>t. (sender_id t, map ID (Turn.messages t))))
           (messagesToTurns scenario (Some 60)) = Inr [(1, [1, 2]), (2, [3, 4]), (1, [5])]"
proof (intro conjI impI)
  from messagesToTurns_runs [of msgs topt]
  show "\<exists>ts. messagesToTurns msgs topt = Inr ts
            \<and> concat (map Turn.messages ts) = sort_key (\<lambda>m. parseDate (sent_at m)) msgs
            \<and> (\<forall>t\<in>set ts. Turn.messages t \<noteq> []
                  \<and> successively (\<lambda>a b. \<not> starts_new_turn T a b) (Turn.messages t))
            \<and> successively (\<lambda>t u. starts_new_turn T (last (Turn.messages t))
                                     (hd (Turn.messages u))) ts"
    unfolding assms runs_ok_map by blast
next
  assume "T' \<noteq> 0"
  then show "turnTimeout_used srt (Some T') = T'"
    by (simp add: turnTimeout_used_def js_not_def)
next
  show "map_sum id (map (\<lambda>t. (sender_id t, map ID (Turn.messages t))))
           (messagesToTurns scenario (Some 60)) = Inr [(1, [1, 2]), (2, [3, 4]), (1, [5])]"
    by (rule scenario_result)
qed

theorem messagesToTurns_splits_exactly_witness:
  "turnTimeout_used (sort_key (\<lambda>m. parseDate (sent_at m)) equal_gap_messages) (Some 60) = 60
   \<and> (\<exists>ts. messagesToTurns equal_gap_messages (Some 60) = Inr ts
          \<and> concat (map Turn.messages ts) = equal_gap_messages
          \<and> map (\<lambda>t. (sender_id t, map ID (Turn.messages t))) ts = [(7, [1, 2]), (7, [3])])"
proof -
  have T: "60 = turnTimeout_used (sort_key (\<lambda>m. parseDate (sent_at m)) equal_gap_messages) (Some 60)"
    by (simp add: turnTimeout_used_def js_not_def)
  have srt: "sort_key (\<lambda>m. parseDate (sent_at m)) equal_gap_messages = equal_gap_messages"
    by (simp add: equal_gap_messages_def createMessage_def parseDate_def)
  from messagesToTurns_splits_exactly [OF T, of 60 "[]"] obtain ts
    where "messagesToTurns equal_gap_messages (Some 60) = Inr ts"
      "concat (map Turn.messages ts) = equal_gap_messages"
    unfolding srt by blast
  with equal_gap_result T show ?thesis by auto
qed

text \<open>
  Claim C5. The messages of the turns returned by \<open>messagesToTurns\<close>, taken together, are a
  permutation of the input messages: none is dropped and none is duplicated. (This holds
  for the empty input as well.)
\<close>

theorem messagesToTurns_keeps_messages:
  "\<exists>ts. messagesToTurns msgs topt = Inr ts \<and> mset (concat (map Turn.messages ts)) = mset msgs"
proof -
  from messagesToTurns_runs [of msgs topt] obtain ts
    where "messagesToTurns msgs topt = Inr ts"
      "concat (map Turn.messages ts) = sort_key (\<lambda>m. parseDate (sent_at m)) msgs"
    by blast
  then show ?thesis by simp
qed

theorem messagesToTurns_keeps_messages_witness:
  "\<exists>ts. messagesToTurns (rev scenario) None = Inr ts
      \<and> mset (concat (map Turn.messages ts)) = mset scenario"
  using messagesToTurns_keeps_messages [of "rev scenario" None] by simp

subsection \<open>Phase 2: turns to volleys\<close>

lemma turnsToVolleys_loop_step:
  "turnsToVolleys_loop H T (p # c # rest) (vs, cur) =
     (if starts_new_volley T p c then
        (case buildVolley H cur of
           Inl e \<Rightarrow> Inl e
         | Inr v \<Rightarrow> turnsToVolleys_loop H T (c # rest) (vs @ [v], [c]))
      else turnsToVolleys_loop H T (c # rest) (vs, cur @ [c]))"
  by (simp add: starts_new_volley_def Let_def)

lemma turnsToVolleys_loop_sim:
  assumes "cur \<noteq> []"
  shows "\<exists>vs' cur'.
           turnsToVolleys_loop H T (p # rest) (vs, cur) = Inr (vs', cur')
         \<and> runs_loop (starts_new_volley T) (p # rest) (map Volley.turns vs, cur)
             = (map Volley.turns vs', cur')
         \<and> cur' \<noteq> []"
  using assms
proof (induction rest arbitrary: p vs cur)
  case Nil
  then show ?case by simp
next
  case (Cons c rest)
  note step = turnsToVolleys_loop_step [of H T p c rest vs cur]
  show ?case
  proof (cases "starts_new_volley T p c")
    case True
    from buildVolley_returns [OF Cons.prems] obtain v
      where v: "buildVolley H cur = Inr v" "Volley.turns v = cur" by blast
    from Cons.IH [of "[c]" c "vs @ [v]"] obtain vs' cur'
      where "turnsToVolleys_loop H T (c # rest) (vs @ [v], [c]) = Inr (vs', cur')"
        "runs_loop (starts_new_volley T) (c # rest) (map Volley.turns (vs @ [v]), [c])
           = (map Volley.turns vs', cur')" "cur' \<noteq> []"
      by auto
    with True v show ?thesis
      by (simp add: step del: turnsToVolleys_loop.simps)
  next
    case False
    from Cons.IH [of "cur @ [c]" c vs] obtain vs' cur'
      where "turnsToVolleys_loop H T (c # rest) (vs, cur @ [c]) = Inr (vs', cur')"
        "runs_loop (starts_new_volley T) (c # rest) (map Volley.turns vs, cur @ [c])
           = (map Volley.turns vs', cur')" "cur' \<noteq> []"
      by auto
    with False show ?thesis
      by (simp add: step del: turnsToVolleys_loop.simps)
  qed
qed

lemma turnsToVolleys_runs:
  "\<exists>vs. turnsToVolleys H ts topt = Inr vs
      \<and> concat (map Volley.turns vs) = ts
      \<and> runs_ok (starts_new_volley (threadletTimeout_used ts topt)) (map Volley.turns vs)"
proof (cases ts)
  case Nil
  then show ?thesis by (simp add: turnsToVolleys_def runs_ok_def)
next
  case (Cons x xs)
  define T where "T = threadletTimeout_used ts topt"
  from turnsToVolleys_loop_sim [of "[x]" H T x xs "[]"] obtain vs' cur'
    where loop: "turnsToVolleys_loop H T (x # xs) ([], [x]) = Inr (vs', cur')"
      and runs: "runs_loop (starts_new_volley T) (x # xs) ([], [x]) = (map Volley.turns vs', cur')"
      and ne: "cur' \<noteq> []"
    by auto
  from buildVolley_returns [OF ne] obtain v
    where v: "buildVolley H cur' = Inr v" "Volley.turns v = cur'" by blast
  have ne_ts: "ts \<noteq> []" using Cons by simp
  have loop': "turnsToVolleys_loop H T ts ([], [ts ! 0]) = Inr (vs', cur')"
    using loop Cons by simp
  have res: "turnsToVolleys H ts topt = Inr (vs' @ [v])"
    using loop' ne_ts ne v by (simp add: turnsToVolleys_def Let_def T_def [symmetric])
  from runs_loop_start [OF runs] v
  have "runs_ok (starts_new_volley T) (map Volley.turns (vs' @ [v]))"
    "concat (map Volley.turns (vs' @ [v])) = ts"
    by (simp_all add: Cons)
  with res show ?thesis unfolding T_def by blast
qed

text \<open>
  Claim C6. In the result of \<open>turnsToVolleys\<close>, run with the volley timeout \<open>T\<close>, two
  adjacent turns of one volley are separated by a gap of at most \<open>T\<close>, every volley has at
  least one turn, and the gap between the last turn of a volley and the first turn of the
  next exceeds \<open>T\<close>. The volleys partition the turns in order. \<open>T\<close> is the timeout the run
  uses, which is the supplied one when it is not zero.
\<close>

theorem turnsToVolleys_gap_bound:
  assumes "T = threadletTimeout_used ts topt"
  shows "(\<exists>vs. turnsToVolleys H ts topt = Inr vs
            \<and> concat (map Volley.turns vs) = ts
            \<and> (\<forall>v\<in>set vs. Volley.turns v \<noteq> []
                  \<and> successively (\<lambda>a b. getGapSeconds (Turn.end_time a) (Turn.start_time b) \<le> T)
                       (Volley.turns v))
            \<and> successively (\<lambda>v w. getGapSeconds (Turn.end_time (last (Volley.turns v)))
                                     (Turn.start_time (hd (Volley.turns w))) > T) vs)
       \<and> (T' \<noteq> 0 \<longrightarrow> threadletTimeout_used ts (Some T') = T')"
proof (intro conjI impI)
  from turnsToVolleys_runs [of H ts topt]
  show "\<exists>vs. turnsToVolleys H ts topt = Inr vs
            \<and> concat (map Volley.turns vs) = ts
            \<and> (\<forall>v\<in>set vs. Volley.turns v \<noteq> []
                  \<and> successively (\<lambda>a b. getGapSeconds (Turn.end_time a) (Turn.start_time b) \<le> T)
                       (Volley.turns v))
            \<and> successively (\<lambda>v w. getGapSeconds (Turn.end_time (last (Volley.turns v)))
                                     (Turn.start_time (hd (Volley.turns w))) > T) vs"
    unfolding assms runs_ok_map starts_new_volley_def not_less by blast
next
  assume "T' \<noteq> 0"
  then show "threadletTimeout_used ts (Some T') = T'"
    by (simp add: threadletTimeout_used_def js_not_def)
qed

lemma scenario_volleys:
  "map_sum id (map (\<lambda>v. map sender_id (Volley.turns v)))
     (turnsToVolleys digest_stub scenario_turns (Some 100)) = Inr [[1, 2], [1]]"
  by (simp add: scenario_turns_def turnsToVolleys_def threadletTimeout_used_def js_not_def
      getGapSeconds_def buildVolley_eq)

theorem turnsToVolleys_gap_bound_witness:
  "threadletTimeout_used scenario_turns (Some 100) = 100
   \<and> (\<exists>vs. turnsToVolleys digest_stub scenario_turns (Some 100) = Inr vs
          \<and> concat (map Volley.turns vs) = scenario_turns
          \<and> map (\<lambda>v. map sender_id (Volley.turns v)) vs = [[1, 2], [1]])"
proof -
  have T: "100 = threadletTimeout_used scenario_turns (Some 100)"
    by (simp add: threadletTimeout_used_def js_not_def)
  from turnsToVolleys_gap_bound [OF T, of digest_stub 100] obtain vs
    where "turnsToVolleys digest_stub scenario_turns (Some 100) = Inr vs"
      "concat (map Volley.turns vs) = scenario_turns"
    by blast
  with scenario_volleys T show ?thesis by auto
qed

subsection \<open>Optional timeouts\<close>

text \<open>
  Claim C9. For \<open>messagesToTurns\<close>, \<open>turnsToVolleys\<close> and \<open>volleysToSessions\<close>, a supplied
  timeout of \<open>0\<close> gives the result of the omitted timeout: the guard \<open>!timeout\<close> discards
  the zero and the timeout is derived from the gaps.
\<close>

theorem zero_timeout_is_omitted:
  "messagesToTurns msgs (Some 0) = messagesToTurns msgs None
   \<and> turnsToVolleys H ts (Some 0) = turnsToVolleys H ts None
   \<and> volleysToSessions vs (Some 0) = volleysToSessions vs None
   \<and> turnTimeout_used srt (Some 0) = turn_timeout (calculateTimeouts (message_gaps srt))
   \<and> threadletTimeout_used ts (Some 0) = threadlet_timeout (calculateTimeouts (turn_gaps ts))
   \<and> sessionTimeout_used vs (Some 0) = session_timeout (calculateTimeouts (volley_gaps vs))"
  by (simp add: messagesToTurns_def turnsToVolleys_def volleysToSessions_def
      turnTimeout_used_def threadletTimeout_used_def sessionTimeout_used_def js_not_def)

theorem zero_timeout_is_omitted_witness:
  "messagesToTurns equal_gap_messages (Some 0) = messagesToTurns equal_gap_messages None
   \<and> map_sum id (map (\<lambda>t. map ID (Turn.messages t)))
        (messagesToTurns equal_gap_messages None) = Inr [[1, 2, 3]]"
  using zero_timeout_is_omitted [of equal_gap_messages digest_stub "[]" "[]" "[]"]
  by (simp add: equal_gap_messages_def createMessage_def messagesToTurns_def
      turnTimeout_used_def js_not_def parseDate_def getGapSeconds_def createTurn_def
      calculateTimeouts_def getPercentileTimeout_def)

end
